theory Spec2Isabelle
  imports Main
begin

section \<open>BufferedSerial2: a buffered, interrupt-driven serial port\<close>

text \<open>
  The development embeds \<^verbatim>\<open>BufferedSerial2.cpp\<close> and the inline members of
  \<^verbatim>\<open>BufferedSerial2.h\<close>. The port is a record that is passed through every member
  function and returned updated. The two collaborators whose code is not part of the
  sources, the ring buffer \<^verbatim>\<open>mbed::CircularBuffer2\<close> and the serial HAL
  (\<^verbatim>\<open>serial_writable\<close>, \<^verbatim>\<open>serial_putc\<close>, \<^verbatim>\<open>serial_readable\<close>, \<^verbatim>\<open>serial_getc\<close>,
  \<^verbatim>\<open>RawSerial::attach\<close>), are modelled from the specification.

  A byte (\<^verbatim>\<open>char\<close>) is a \<^typ>\<open>char\<close>; \<^verbatim>\<open>int\<close> values are \<^typ>\<open>int\<close>. The targets of the
  library are 32-bit microcontrollers, on which no object is longer than
  \<^verbatim>\<open>PTRDIFF_MAX\<close> bytes, so the pointer differences that \<^verbatim>\<open>puts\<close> and \<^verbatim>\<open>write\<close> return
  are exact and are computed without wrap-around.
\<close>

subsection \<open>The ring buffer\<close>

text \<open>
  Modelled from the spec: \<^verbatim>\<open>mbed::CircularBuffer2<T>\<close> (header \<^verbatim>\<open>CircularBuffer2.h\<close>),
  sections 3 and 4.1. A fixed backing storage of capacity \<open>C = length (pool b)\<close>, a read
  index, a write index and a count.
\<close>

record 'a CircularBuffer2 =
  pool :: "'a list"
  rd :: nat
  wr :: nat
  cnt :: nat

text \<open>
  Modelled from the spec: the constructor \<^verbatim>\<open>CircularBuffer2(buf, size)\<close>; the storage is
  supplied by the caller and \<open>size\<close> is its length.
\<close>

definition cb_init :: "'a list \<Rightarrow> 'a CircularBuffer2" where
  "cb_init buf = \<lparr>pool = buf, rd = 0, wr = 0, cnt = 0\<rparr>"

text \<open>Modelled from the spec: \<^verbatim>\<open>empty()\<close> and \<^verbatim>\<open>full()\<close>.\<close>

definition cb_empty :: "'a CircularBuffer2 \<Rightarrow> bool" where
  "cb_empty b = (cnt b = 0)"

definition cb_full :: "'a CircularBuffer2 \<Rightarrow> bool" where
  "cb_full b = (cnt b = length (pool b))"

text \<open>
  Modelled from the spec: \<^verbatim>\<open>push(v)\<close> always succeeds; on a full buffer the read index
  advances first (the oldest unread element is discarded), then \<open>v\<close> is written at the
  write index, which advances. The count stays at \<open>C\<close> when overwriting and grows by one
  otherwise.
\<close>

definition cb_push :: "'a \<Rightarrow> 'a CircularBuffer2 \<Rightarrow> 'a CircularBuffer2" where
  "cb_push v b =
     (let C = length (pool b) in
      if cb_full b then
        b\<lparr>rd := (rd b + 1) mod C, pool := (pool b)[wr b := v], wr := (wr b + 1) mod C\<rparr>
      else
        b\<lparr>pool := (pool b)[wr b := v], wr := (wr b + 1) mod C, cnt := cnt b + 1\<rparr>)"

text \<open>
  Modelled from the spec: \<^verbatim>\<open>bool pop(T& data)\<close>, a success flag with an out-parameter.
  On an empty buffer it returns false and leaves \<open>data\<close> and the buffer as they are;
  otherwise it stores the element at the read index in \<open>data\<close>, advances the read index
  and decrements the count. The result is the flag, the new value of \<open>data\<close> and the new
  buffer.
\<close>

definition cb_pop :: "'a CircularBuffer2 \<Rightarrow> 'a \<Rightarrow> bool \<times> 'a \<times> 'a CircularBuffer2" where
  "cb_pop b data =
     (if cb_empty b then (False, data, b)
      else (True, pool b ! rd b,
            b\<lparr>rd := (rd b + 1) mod length (pool b), cnt := cnt b - 1\<rparr>))"

text \<open>The invariant of section 3 and the queue a buffer stands for, oldest element first.\<close>

definition cb_wf :: "'a CircularBuffer2 \<Rightarrow> bool" where
  "cb_wf b =
     (0 < length (pool b) \<and> rd b < length (pool b) \<and> cnt b \<le> length (pool b) \<and>
      wr b = (rd b + cnt b) mod length (pool b))"

definition cb_contents :: "'a CircularBuffer2 \<Rightarrow> 'a list" where
  "cb_contents b = map (\<lambda>i. pool b ! ((rd b + i) mod length (pool b))) [0..<cnt b]"

subsection \<open>The serial hardware\<close>

text \<open>
  Modelled from the spec: the hardware UART abstraction of section 6 (\<^verbatim>\<open>serial_t\<close> and
  the HAL functions on it). The transmitter accepts \<open>tx_room\<close> more bytes before it is
  busy; the receiver holds the bytes \<open>rx_data\<close> that have arrived and were not read.
\<close>

record serial_t =
  tx_room :: nat
  rx_data :: "char list"

definition serial_writable :: "serial_t \<Rightarrow> bool" where
  "serial_writable h = (0 < tx_room h)"

definition serial_readable :: "serial_t \<Rightarrow> bool" where
  "serial_readable h = (rx_data h \<noteq> [])"

text \<open>
  The history of a port records the entries into \<^verbatim>\<open>prime\<close>, the calls of
  \<^verbatim>\<open>RawSerial::attach\<close> for \<^verbatim>\<open>TxIrq\<close> (with \<open>True\<close> for a handler and \<open>False\<close> for \<^verbatim>\<open>NULL\<close>),
  of \<^verbatim>\<open>serial_putc\<close> and of \<^verbatim>\<open>_txbuf.push\<close>, and every turn of a busy-wait loop.
\<close>

datatype call =
    Call_prime
  | Call_attach_TxIrq bool
  | Call_serial_putc char
  | Call_txbuf_push char
  | Spin

datatype irq_state = DISABLED | ENABLED

text \<open>
  What the hardware does on its own: the transmitter becomes ready for \<open>n\<close> more bytes,
  or a byte arrives at the receiver. Either raises the interrupt of its kind.
\<close>

datatype irq_event = TxReady nat | RxByte char

subsection \<open>The port\<close>

text \<open>
  \<open>rxbuf\<close>, \<open>txbuf\<close>, \<open>m_block_on_full\<close> and \<open>serial\<close> are the members \<^verbatim>\<open>_rxbuf\<close>, \<^verbatim>\<open>_txbuf\<close>,
  \<^verbatim>\<open>m_block_on_full\<close> and \<^verbatim>\<open>_serial\<close>. \<open>rx_irq\<close> and \<open>tx_irq\<close> say whether a handler is
  attached to \<^verbatim>\<open>RxIrq\<close> and \<^verbatim>\<open>TxIrq\<close>. \<open>pending\<close> is the future of the hardware: the
  interrupt events that will happen while the foreground spins, in order. \<open>calls\<close> is
  the history of the calls made so far, oldest first.
\<close>

record BufferedSerial2 =
  rxbuf :: "char CircularBuffer2"
  txbuf :: "char CircularBuffer2"
  m_block_on_full :: bool
  serial :: serial_t
  rx_irq :: irq_state
  tx_irq :: irq_state
  pending :: "irq_event list"
  calls :: "call list"

definition log :: "call \<Rightarrow> BufferedSerial2 \<Rightarrow> BufferedSerial2" where
  "log e st = st\<lparr>calls := calls st @ [e]\<rparr>"

text \<open>
  Modelled from the spec: \<^verbatim>\<open>serial_putc\<close>, valid only when the transmitter is ready; it
  hands one byte to the hardware.
\<close>

definition serial_putc :: "char \<Rightarrow> BufferedSerial2 \<Rightarrow> BufferedSerial2" where
  "serial_putc c st =
     log (Call_serial_putc c) (st\<lparr>serial := (serial st)\<lparr>tx_room := tx_room (serial st) - 1\<rparr>\<rparr>)"

text \<open>
  Modelled from the spec: \<^verbatim>\<open>RawSerial::attach(f, RawSerial::TxIrq)\<close>; \<open>None\<close> is \<^verbatim>\<open>NULL\<close>
  and detaches, \<open>Some ()\<close> is the callback to \<^verbatim>\<open>txIrq\<close>.
\<close>

definition attach_TxIrq :: "unit option \<Rightarrow> BufferedSerial2 \<Rightarrow> BufferedSerial2" where
  "attach_TxIrq f st =
     log (Call_attach_TxIrq (f \<noteq> None))
       (st\<lparr>tx_irq := (case f of None \<Rightarrow> DISABLED | Some _ \<Rightarrow> ENABLED)\<rparr>)"

definition attach_RxIrq :: "unit option \<Rightarrow> BufferedSerial2 \<Rightarrow> BufferedSerial2" where
  "attach_RxIrq f st = st\<lparr>rx_irq := (case f of None \<Rightarrow> DISABLED | Some _ \<Rightarrow> ENABLED)\<rparr>"

text \<open>\<^verbatim>\<open>_txbuf.push(c)\<close> and \<^verbatim>\<open>_txbuf.pop(c)\<close> on the port.\<close>

definition txbuf_push :: "char \<Rightarrow> BufferedSerial2 \<Rightarrow> BufferedSerial2" where
  "txbuf_push c st = log (Call_txbuf_push c) (st\<lparr>txbuf := cb_push c (txbuf st)\<rparr>)"

definition txbuf_pop :: "char \<Rightarrow> BufferedSerial2 \<Rightarrow> char \<times> BufferedSerial2" where
  "txbuf_pop c st =
     (case cb_pop (txbuf st) c of (ok, c', b) \<Rightarrow> (c', st\<lparr>txbuf := b\<rparr>))"

text \<open>The constructor: both buffers empty, the receive handler attached.\<close>

definition BufferedSerial2_ctor ::
  "char list \<Rightarrow> char list \<Rightarrow> bool \<Rightarrow> serial_t \<Rightarrow> irq_event list \<Rightarrow> BufferedSerial2" where
  "BufferedSerial2_ctor rx_buf tx_buf block_on_full hw future =
     attach_RxIrq (Some ())
       \<lparr>rxbuf = cb_init rx_buf, txbuf = cb_init tx_buf, m_block_on_full = block_on_full,
        serial = hw, rx_irq = DISABLED, tx_irq = DISABLED, pending = future, calls = []\<rparr>"

definition readable :: "BufferedSerial2 \<Rightarrow> bool" where
  "readable st = (if cb_empty (rxbuf st) then False else True)"

definition writeable :: "BufferedSerial2 \<Rightarrow> int \<times> BufferedSerial2" where
  "writeable st = (1, st)"

text \<open>
  \<^verbatim>\<open>getc\<close> and the inline \<^verbatim>\<open>_getc\<close> (here \<open>getc'\<close>; likewise \<open>putc'\<close> is \<^verbatim>\<open>_putc\<close>):
  \<^verbatim>\<open>char c = 0; _rxbuf.pop(c); return c;\<close>. Plain \<^verbatim>\<open>char\<close> is unsigned on the ARM
  targets, so the result is between 0 and 255.
\<close>

definition getc :: "BufferedSerial2 \<Rightarrow> int \<times> BufferedSerial2" where
  "getc st =
     (case cb_pop (rxbuf st) (CHR 0x00) of (ok, c, b) \<Rightarrow> (of_char c, st\<lparr>rxbuf := b\<rparr>))"

definition getc' :: "BufferedSerial2 \<Rightarrow> int \<times> BufferedSerial2" where
  "getc' st =
     (case cb_pop (rxbuf st) (CHR 0x00) of (ok, c, b) \<Rightarrow> (of_char c, st\<lparr>rxbuf := b\<rparr>))"

subsection \<open>The interrupt handlers and prime\<close>

text \<open>
  In \<^verbatim>\<open>rxIrq\<close> the call \<^verbatim>\<open>serial_getc\<close> (modelled from the spec: \<^verbatim>\<open>read_byte\<close>, valid only
  when the receiver is ready) takes the oldest byte that has arrived.
\<close>

definition rxIrq :: "BufferedSerial2 \<Rightarrow> BufferedSerial2" where
  "rxIrq st =
     (if serial_readable (serial st) then
        st\<lparr>rxbuf := cb_push (hd (rx_data (serial st))) (rxbuf st),
           serial := (serial st)\<lparr>rx_data := tl (rx_data (serial st))\<rparr>\<rparr>
      else st)"

text \<open>
  The loop of \<^verbatim>\<open>txIrq\<close>. Every iteration that does not leave the loop hands a byte to
  the hardware, which has room for finitely many.
\<close>

function txIrq :: "BufferedSerial2 \<Rightarrow> BufferedSerial2" where
  "txIrq st =
     (if serial_writable (serial st) then
        (if \<not> cb_empty (txbuf st) then
           txIrq (serial_putc (fst (txbuf_pop (CHR 0x00) st)) (snd (txbuf_pop (CHR 0x00) st)))
         else attach_TxIrq None st)
      else st)"
  by pat_completeness auto
termination
  by (relation "measure (\<lambda>st. tx_room (serial st))")
     (auto simp: serial_putc_def log_def txbuf_pop_def serial_writable_def split: prod.splits)

definition prime :: "BufferedSerial2 \<Rightarrow> BufferedSerial2" where
  "prime st0 =
     (let st = log Call_prime st0 in
      if serial_writable (serial st) then
        attach_TxIrq (Some ()) (txIrq (attach_TxIrq None st))
      else st)"

text \<open>
  One interrupt event. The hardware changes first; the handler runs if one is attached.
\<close>

fun irq_fire :: "irq_event \<Rightarrow> BufferedSerial2 \<Rightarrow> BufferedSerial2" where
  "irq_fire (TxReady n) st =
     (let st1 = st\<lparr>serial := (serial st)\<lparr>tx_room := n\<rparr>\<rparr> in
      if tx_irq st1 = ENABLED then txIrq st1 else st1)"
| "irq_fire (RxByte c) st =
     (let st1 = st\<lparr>serial := (serial st)\<lparr>rx_data := rx_data (serial st) @ [c]\<rparr>\<rparr> in
      if rx_irq st1 = ENABLED then rxIrq st1 else st1)"

definition irq_run :: "irq_event list \<Rightarrow> BufferedSerial2 \<Rightarrow> BufferedSerial2" where
  "irq_run es st = foldl (\<lambda>s e. irq_fire e s) st es"

subsection \<open>The write surface\<close>

text \<open>
  The busy-wait \<^verbatim>\<open>while (m_block_on_full && _txbuf.full());\<close>. Nothing in the loop changes
  the buffer: only an interrupt can. Each turn of the loop lets the next pending
  interrupt event happen; when none is left and the buffer is still full, the loop
  never ends, which is the result \<open>None\<close>.
\<close>

function wait_tx_not_full :: "BufferedSerial2 \<Rightarrow> BufferedSerial2 option" where
  "wait_tx_not_full st =
     (if m_block_on_full st \<and> cb_full (txbuf st) then
        (case pending st of
           [] \<Rightarrow> None
         | e # es \<Rightarrow> wait_tx_not_full ((irq_fire e (log Spin st))\<lparr>pending := es\<rparr>))
      else Some st)"
  by pat_completeness auto
termination
  by (relation "measure (\<lambda>st. length (pending st))") auto

definition putc :: "int \<Rightarrow> BufferedSerial2 \<Rightarrow> (int \<times> BufferedSerial2) option" where
  "putc c st =
     (case wait_tx_not_full st of
        None \<Rightarrow> None
      | Some st1 \<Rightarrow> Some (c, prime (txbuf_push (char_of c) st1)))"

definition putc' :: "int \<Rightarrow> BufferedSerial2 \<Rightarrow> (int \<times> BufferedSerial2) option" where
  "putc' c st = putc c st"

text \<open>
  The loop of \<^verbatim>\<open>puts\<close>. The argument list holds the bytes at \<open>ptr\<close>; the byte after the
  last one is the terminating NUL, and a NUL inside the list ends the loop as well. The
  number is \<open>ptr - s\<close>.
\<close>

fun puts_loop :: "char list \<Rightarrow> nat \<Rightarrow> BufferedSerial2 \<Rightarrow> (nat \<times> BufferedSerial2) option" where
  "puts_loop [] n st = Some (n, st)"
| "puts_loop (c # cs) n st =
     (if c \<noteq> CHR 0x00 then
        (case wait_tx_not_full st of
           None \<Rightarrow> None
         | Some st1 \<Rightarrow> puts_loop cs (Suc n) (txbuf_push c st1))
      else Some (n, st))"

text \<open>\<open>None\<close> as the argument is the null pointer.\<close>

definition puts :: "char list option \<Rightarrow> BufferedSerial2 \<Rightarrow> (int \<times> BufferedSerial2) option" where
  "puts s st =
     (case s of
        Some str \<Rightarrow>
          (case puts_loop str 0 st of
             None \<Rightarrow> None
           | Some (n, st1) \<Rightarrow> Some (int n + 1, prime (txbuf_push (CHR 0x0A) st1)))
      | None \<Rightarrow> Some (0, st))"

text \<open>
  The loop of \<^verbatim>\<open>write\<close> and \<^verbatim>\<open>write\<close> itself, named \<open>write_bulk\<close> because \<open>write\<close> is
  a keyword of Isabelle. \<open>None\<close> is the null pointer. In the loop \<open>mem i\<close> is the byte at
  \<open>s + i\<close>, the first number is \<open>ptr - s\<close> and the second is \<open>end - ptr\<close>, so that
  \<^verbatim>\<open>ptr != end\<close> is the case \<open>Suc k\<close>.
\<close>

fun write_loop ::
  "(nat \<Rightarrow> char) \<Rightarrow> nat \<Rightarrow> nat \<Rightarrow> BufferedSerial2 \<Rightarrow> (nat \<times> BufferedSerial2) option" where
  "write_loop mem ptr 0 st = Some (ptr, st)"
| "write_loop mem ptr (Suc k) st =
     (case wait_tx_not_full st of
        None \<Rightarrow> None
      | Some st1 \<Rightarrow> write_loop mem (Suc ptr) k (txbuf_push (mem ptr) st1))"

definition write_bulk ::
  "(nat \<Rightarrow> char) option \<Rightarrow> nat \<Rightarrow> BufferedSerial2 \<Rightarrow> (int \<times> BufferedSerial2) option" where
  "write_bulk s len st =
     (if s \<noteq> None \<and> len > 0 then
        (case write_loop (the s) 0 len st of
           None \<Rightarrow> None
         | Some (n, st1) \<Rightarrow> Some (int n, prime st1))
      else Some (0, st))"

subsection \<open>Reading the history\<close>

fun sent :: "call list \<Rightarrow> char list" where
  "sent [] = []"
| "sent (Call_serial_putc c # tr) = c # sent tr"
| "sent (_ # tr) = sent tr"


text \<open>
  What holds of the transmit side between calls once \<^verbatim>\<open>prime\<close> has run: the handler is
  attached or nothing is queued.
\<close>

definition tx_inv :: "BufferedSerial2 \<Rightarrow> bool" where
  "tx_inv st = (cb_wf (txbuf st) \<and> (tx_irq st = ENABLED \<or> cb_empty (txbuf st)))"



text \<open>The last \<open>C\<close> elements of a list, or all of it when it is shorter.\<close>

definition keep_last :: "nat \<Rightarrow> 'a list \<Rightarrow> 'a list" where
  "keep_last C q = drop (length q - C) q"




subsection \<open>Example ports\<close>

text \<open>
  A fresh port with two bytes of storage for each buffer, and the memory that holds the
  bytes \<open>xs\<close> followed by zeros.
\<close>

definition port0 :: "bool \<Rightarrow> nat \<Rightarrow> irq_event list \<Rightarrow> BufferedSerial2" where
  "port0 block room future =
     BufferedSerial2_ctor [CHR 0x00, CHR 0x00] [CHR 0x00, CHR 0x00] block
       \<lparr>tx_room = room, rx_data = []\<rparr> future"

definition mem_of :: "char list \<Rightarrow> nat \<Rightarrow> char" where
  "mem_of xs i = (if i < length xs then xs ! i else CHR 0x00)"

text \<open>
  The port after \<^verbatim>\<open>putc('X')\<close> on a fresh blocking port whose transmitter took the byte
  and is busy with it; it will be ready for one more byte later.
\<close>

definition port_sending :: BufferedSerial2 where
  "port_sending = prime (txbuf_push (CHR ''X'') (port0 True 1 [TxReady 1]))"

text \<open>What a call of the write surface returned, sent and left queued.\<close>

definition outcome ::
  "(int \<times> BufferedSerial2) option \<Rightarrow> (int \<times> char list \<times> char list) option" where
  "outcome res = map_option (\<lambda>(r, st). (r, sent (calls st), cb_contents (txbuf st))) res"

text \<open>
  Fresh non-blocking ports on which \<open>A\<close>, or \<open>A\<close> and \<open>B\<close>, were pushed: the first with a
  transmitter ready for two bytes, the second for one.
\<close>

definition port_A :: BufferedSerial2 where
  "port_A = txbuf_push (CHR ''A'') (port0 False 2 [])"

definition port_AB :: BufferedSerial2 where
  "port_AB = txbuf_push (CHR ''B'') (txbuf_push (CHR ''A'') (port0 False 1 []))"


text \<open>
  The fresh port after a zero byte arrived, and a blocking port with a busy transmitter
  whose tx buffer is full.
\<close>

definition port_rx0 :: BufferedSerial2 where
  "port_rx0 = irq_fire (RxByte (CHR 0x00)) (port0 True 0 [])"

definition port_full :: BufferedSerial2 where
  "port_full = txbuf_push (CHR ''B'') (txbuf_push (CHR ''A'') (port0 True 0 []))"



section \<open>Properties\<close>

subsection \<open>Auxiliary facts\<close>

declare txIrq.simps [simp del] wait_tx_not_full.simps [simp del]

lemma sent_append: "sent (xs @ ys) = sent xs @ sent ys"
  by (induction xs rule: sent.induct) simp_all


lemma cb_pop_empty: "cb_empty b \<Longrightarrow> cb_pop b d = (False, d, b)"
  by (simp add: cb_pop_def)


lemma cb_empty_contents: "cb_empty b = (cb_contents b = [])"
  by (simp add: cb_empty_def cb_contents_def)

lemma cb_pop_data:
  assumes "cb_wf b" "\<not> cb_empty b"
  shows "fst (snd (cb_pop b d)) = hd (cb_contents b)"
proof -
  from assms have "[0..<cnt b] = 0 # [1..<cnt b]"
    by (simp add: cb_empty_def upt_conv_Cons)
  with assms show ?thesis
    by (simp add: cb_pop_def cb_contents_def cb_wf_def)
qed

lemma map_upt_Suc_shift: "map f [0..<Suc n] = f 0 # map (\<lambda>i. f (Suc i)) [0..<n]"
  by (simp only: upt_conv_Cons [of 0 "Suc n"] map_Suc_upt [symmetric]) (simp add: comp_def)

lemma cb_pop_rest:
  assumes "cb_wf b" "\<not> cb_empty b"
  shows "cb_contents (snd (snd (cb_pop b d))) = tl (cb_contents b)"
proof -
  let ?C = "length (pool b)"
  from assms obtain n where c: "cnt b = Suc n"
    by (auto simp: cb_empty_def gr0_conv_Suc)
  have "tl (cb_contents b) = map (\<lambda>i. pool b ! ((rd b + Suc i) mod ?C)) [0..<n]"
    unfolding cb_contents_def c by (subst map_upt_Suc_shift) simp
  moreover have "((rd b + 1) mod ?C + i) mod ?C = (rd b + Suc i) mod ?C" for i
    by (simp add: mod_add_left_eq)
  ultimately show ?thesis using assms c
    by (simp add: cb_pop_def cb_contents_def)
qed

lemma cb_pop_wf:
  assumes "cb_wf b" "\<not> cb_empty b"
  shows "cb_wf (snd (snd (cb_pop b d)))"
proof -
  let ?C = "length (pool b)"
  from assms obtain n where c: "cnt b = Suc n"
    by (auto simp: cb_empty_def gr0_conv_Suc)
  have "((rd b + 1) mod ?C + n) mod ?C = (rd b + Suc n) mod ?C"
    by (simp add: mod_add_left_eq)
  with assms c show ?thesis
    by (simp add: cb_pop_def cb_wf_def)
qed





lemma txbuf_pop_eq:
  "txbuf_pop c st =
     (fst (snd (cb_pop (txbuf st) c)), st\<lparr>txbuf := snd (snd (cb_pop (txbuf st) c))\<rparr>)"
  by (simp add: txbuf_pop_def split: prod.splits)

lemma txIrq_drain:
  "cb_wf (txbuf st) \<Longrightarrow>
     sent (calls (txIrq st)) =
       sent (calls st) @ take (tx_room (serial st)) (cb_contents (txbuf st)) \<and>
     cb_contents (txbuf (txIrq st)) = drop (tx_room (serial st)) (cb_contents (txbuf st)) \<and>
     cb_wf (txbuf (txIrq st)) \<and>
     tx_irq (txIrq st) =
       (if length (cb_contents (txbuf st)) < tx_room (serial st) then DISABLED else tx_irq st)"
proof (induction st rule: txIrq.induct)
  case (1 st)
  let ?b = "txbuf st"
  show ?case
  proof (cases "serial_writable (serial st)")
    case False
    then show ?thesis using "1.prems"
      by (subst (1 2 3 4) txIrq.simps) (simp add: serial_writable_def)
  next
    case w: True
    show ?thesis
    proof (cases "cb_empty ?b")
      case True
      with w "1.prems" show ?thesis
        by (subst (1 2 3 4) txIrq.simps)
           (simp add: attach_TxIrq_def log_def sent_append cb_empty_contents
                      serial_writable_def)
    next
      case ne: False
      let ?st' = "serial_putc (fst (txbuf_pop (CHR 0x00) st)) (snd (txbuf_pop (CHR 0x00) st))"
      have step: "txIrq st = txIrq ?st'"
        using w ne by (subst txIrq.simps) simp
      have b': "txbuf ?st' = snd (snd (cb_pop ?b (CHR 0x00)))"
        by (simp add: serial_putc_def log_def txbuf_pop_eq)
      have c': "calls ?st' = calls st @ [Call_serial_putc (hd (cb_contents ?b))]"
        using cb_pop_data [OF "1.prems" ne, of "CHR 0x00"]
        by (simp add: serial_putc_def log_def txbuf_pop_eq)
      have r': "tx_room (serial ?st') = tx_room (serial st) - 1"
        by (simp add: serial_putc_def log_def txbuf_pop_eq)
      have q': "tx_irq ?st' = tx_irq st"
        by (simp add: serial_putc_def log_def txbuf_pop_eq)
      have wf': "cb_wf (txbuf ?st')"
        using cb_pop_wf [OF "1.prems" ne] b' by simp
      have k': "cb_contents (txbuf ?st') = tl (cb_contents ?b)"
        using cb_pop_rest [OF "1.prems" ne] b' by simp
      from ne obtain x xs where xs: "cb_contents ?b = x # xs"
        by (auto simp: cb_empty_contents neq_Nil_conv)
      from w obtain m where m: "tx_room (serial st) = Suc m"
        by (auto simp: serial_writable_def gr0_conv_Suc)
      note IH = "1.IH" [OF w ne wf']
      show ?thesis
        unfolding step using IH
        by (simp add: c' r' q' k' xs m sent_append)
    qed
  qed
qed


lemma txIrq_frame:
  "\<exists>d. \<forall>q tr.
     calls (txIrq (st\<lparr>tx_irq := q, calls := tr\<rparr>)) = tr @ d \<and>
     txbuf (txIrq (st\<lparr>tx_irq := q, calls := tr\<rparr>)) = txbuf (txIrq st) \<and>
     serial (txIrq (st\<lparr>tx_irq := q, calls := tr\<rparr>)) = serial (txIrq st)"
proof (induction st rule: txIrq.induct)
  case (1 st)
  show ?case
  proof (cases "serial_writable (serial st)")
    case False
    then have "\<And>q tr. txIrq (st\<lparr>tx_irq := q, calls := tr\<rparr>) = st\<lparr>tx_irq := q, calls := tr\<rparr>"
      and "txIrq st = st"
      by (subst txIrq.simps, simp)+
    then show ?thesis by simp
  next
    case w: True
    show ?thesis
    proof (cases "cb_empty (txbuf st)")
      case True
      with w have "\<And>q tr. txIrq (st\<lparr>tx_irq := q, calls := tr\<rparr>) =
          attach_TxIrq None (st\<lparr>tx_irq := q, calls := tr\<rparr>)"
        and "txIrq st = attach_TxIrq None st"
        by (subst txIrq.simps, simp)+
      then show ?thesis by (simp add: attach_TxIrq_def log_def)
    next
      case ne: False
      let ?c = "fst (txbuf_pop (CHR 0x00) st)"
      let ?st' = "serial_putc ?c (snd (txbuf_pop (CHR 0x00) st))"
      from "1.IH" [OF w ne] obtain d where d: "\<And>q tr.
         calls (txIrq (?st'\<lparr>tx_irq := q, calls := tr\<rparr>)) = tr @ d \<and>
         txbuf (txIrq (?st'\<lparr>tx_irq := q, calls := tr\<rparr>)) = txbuf (txIrq ?st') \<and>
         serial (txIrq (?st'\<lparr>tx_irq := q, calls := tr\<rparr>)) = serial (txIrq ?st')"
        by blast
      have step: "txIrq st = txIrq ?st'"
        using w ne by (subst txIrq.simps) simp
      have step': "txIrq (st\<lparr>tx_irq := q, calls := tr\<rparr>) =
          txIrq (?st'\<lparr>tx_irq := q, calls := tr @ [Call_serial_putc ?c]\<rparr>)" for q tr
      proof -
        have "serial_putc ?c (snd (txbuf_pop (CHR 0x00) (st\<lparr>tx_irq := q, calls := tr\<rparr>))) =
            ?st'\<lparr>tx_irq := q, calls := tr @ [Call_serial_putc ?c]\<rparr>"
          by (simp add: serial_putc_def log_def txbuf_pop_eq)
        moreover have "fst (txbuf_pop (CHR 0x00) (st\<lparr>tx_irq := q, calls := tr\<rparr>)) = ?c"
          by (simp add: txbuf_pop_eq)
        ultimately show ?thesis
          using w ne by (subst txIrq.simps) simp
      qed
      show ?thesis
        unfolding step step' using d by (intro exI [of _ "Call_serial_putc ?c # d"]) simp
    qed
  qed
qed

lemma txIrq_unchanged:
  "rxbuf (txIrq st) = rxbuf st \<and> m_block_on_full (txIrq st) = m_block_on_full st \<and>
   pending (txIrq st) = pending st \<and> rx_irq (txIrq st) = rx_irq st \<and>
   rx_data (serial (txIrq st)) = rx_data (serial st)"
proof (induction st rule: txIrq.induct)
  case (1 st)
  show ?case
  proof (cases "serial_writable (serial st) \<and> \<not> cb_empty (txbuf st)")
    case True
    then have "txIrq st =
        txIrq (serial_putc (fst (txbuf_pop (CHR 0x00) st)) (snd (txbuf_pop (CHR 0x00) st)))"
      by (subst txIrq.simps) simp
    with "1.IH" True show ?thesis
      by (simp add: serial_putc_def log_def txbuf_pop_eq)
  next
    case False
    then show ?thesis
      by (subst (1 2 3 4 5) txIrq.simps) (auto simp: attach_TxIrq_def log_def)
  qed
qed

lemma prime_busy: "\<not> serial_writable (serial st) \<Longrightarrow> prime st = log Call_prime st"
  by (simp add: prime_def log_def Let_def)

lemma prime_ready:
  "serial_writable (serial st) \<Longrightarrow>
     prime st =
       attach_TxIrq (Some ())
         (txIrq (st\<lparr>tx_irq := DISABLED, calls := calls st @ [Call_prime, Call_attach_TxIrq False]\<rparr>))"
  by (simp add: prime_def log_def Let_def attach_TxIrq_def)

lemma irq_state_not_ENABLED: "(q \<noteq> ENABLED) = (q = DISABLED)"
  by (cases q) simp_all

lemma prime_drain:
  assumes "cb_wf (txbuf st)" "serial_writable (serial st)"
  shows "sent (calls (prime st)) =
           sent (calls st) @ take (tx_room (serial st)) (cb_contents (txbuf st)) \<and>
         cb_contents (txbuf (prime st)) = drop (tx_room (serial st)) (cb_contents (txbuf st)) \<and>
         cb_wf (txbuf (prime st)) \<and> tx_irq (prime st) = ENABLED"
  using txIrq_drain [of "st\<lparr>tx_irq := DISABLED,
      calls := calls st @ [Call_prime, Call_attach_TxIrq False]\<rparr>"] assms
  by (simp add: prime_ready attach_TxIrq_def log_def sent_append)

lemma irq_fire_TxReady:
  assumes "tx_inv st"
  shows "sent (calls (irq_fire (TxReady n) st)) = sent (calls st) @ take n (cb_contents (txbuf st)) \<and>
         cb_contents (txbuf (irq_fire (TxReady n) st)) = drop n (cb_contents (txbuf st)) \<and>
         tx_inv (irq_fire (TxReady n) st)"
proof (cases "tx_irq st = ENABLED")
  case True
  with assms txIrq_drain [of "st\<lparr>serial := (serial st)\<lparr>tx_room := n\<rparr>\<rparr>"] show ?thesis
    by (auto simp: tx_inv_def cb_empty_contents)
next
  case False
  with assms show ?thesis
    by (auto simp: tx_inv_def cb_empty_contents)
qed

lemma irq_run_TxReady:
  "tx_inv st \<Longrightarrow>
     sent (calls (irq_run (map TxReady ns) st)) =
       sent (calls st) @ take (sum_list ns) (cb_contents (txbuf st)) \<and>
     cb_contents (txbuf (irq_run (map TxReady ns) st)) =
       drop (sum_list ns) (cb_contents (txbuf st)) \<and>
     tx_inv (irq_run (map TxReady ns) st)"
proof (induction ns arbitrary: st)
  case Nil
  then show ?case by (simp add: irq_run_def)
next
  case (Cons n ns)
  from irq_fire_TxReady [OF Cons.prems, of n] Cons.IH [of "irq_fire (TxReady n) st"]
  show ?case
    by (simp add: irq_run_def take_add add.commute)
qed

lemma irq_fire_drained:
  assumes "tx_inv st" "cb_empty (txbuf st)" "0 < n"
  shows "tx_irq (irq_fire (TxReady n) st) = DISABLED"
proof (cases "tx_irq st = ENABLED")
  case True
  with assms txIrq_drain [of "st\<lparr>serial := (serial st)\<lparr>tx_room := n\<rparr>\<rparr>"] show ?thesis
    by (simp add: tx_inv_def cb_empty_contents)
next
  case False
  then show ?thesis by (simp add: irq_state_not_ENABLED)
qed






lemma prime_unchanged:
  "pending (prime st) = pending st \<and> m_block_on_full (prime st) = m_block_on_full st \<and>
   rxbuf (prime st) = rxbuf st"
  by (simp add: prime_def Let_def log_def attach_TxIrq_def txIrq_unchanged)

















lemma keep_last_snoc:
  "0 < C \<Longrightarrow> keep_last C (keep_last C q @ [v]) = keep_last C (q @ [v])"
  by (simp add: keep_last_def) (cases "length q \<le> C"; simp add: Suc_diff_le)








lemma txIrq_pool:
  "length (pool (txbuf (txIrq st))) = length (pool (txbuf st))"
proof (induction st rule: txIrq.induct)
  case (1 st)
  show ?case
  proof (cases "serial_writable (serial st) \<and> \<not> cb_empty (txbuf st)")
    case True
    then have "txIrq st =
        txIrq (serial_putc (fst (txbuf_pop (CHR 0x00) st)) (snd (txbuf_pop (CHR 0x00) st)))"
      by (subst txIrq.simps) simp
    with "1.IH" True show ?thesis
      by (simp add: serial_putc_def log_def txbuf_pop_eq cb_pop_def)
  next
    case False
    then show ?thesis
      by (subst txIrq.simps) (auto simp: attach_TxIrq_def log_def)
  qed
qed

lemma prime_pool: "length (pool (txbuf (prime st))) = length (pool (txbuf st))"
  by (simp add: prime_def Let_def log_def attach_TxIrq_def txIrq_pool)

lemma prime_pending_irq: "pending (prime st) = pending st"
  by (simp add: prime_unchanged)









lemma sent_pushes: "sent (map Call_txbuf_push bs) = []"
  by (induction bs) simp_all













subsection \<open>Claims\<close>

text \<open>
  C1 (as amended). If the tx buffer holds at least one byte and \<^verbatim>\<open>prime\<close> is called while
  the hardware can accept bytes, then \<^verbatim>\<open>prime\<close> and the transmit interrupts that follow
  hand the queued bytes to the hardware in the order they were pushed, as many as the
  hardware has taken so far, and the rest stays queued in order. \<^verbatim>\<open>prime\<close> itself leaves
  the transmit interrupt ENABLED, also when it drained the buffer; from then on the
  interrupt is attached as long as a byte is queued, and the first transmit interrupt
  that finds the buffer drained and the hardware ready leaves it DISABLED.
\<close>

theorem prime_fifo_then_disabled:
  assumes "cb_wf (txbuf st)" and "\<not> cb_empty (txbuf st)" and "serial_writable (serial st)"
  shows "tx_irq (prime st) = ENABLED \<and>
    (\<forall>ns. sent (calls (irq_run (map TxReady ns) (prime st))) =
            sent (calls st) @ take (tx_room (serial st) + sum_list ns) (cb_contents (txbuf st)) \<and>
          cb_contents (txbuf (irq_run (map TxReady ns) (prime st))) =
            drop (tx_room (serial st) + sum_list ns) (cb_contents (txbuf st)) \<and>
          (tx_irq (irq_run (map TxReady ns) (prime st)) = ENABLED \<or>
           cb_empty (txbuf (irq_run (map TxReady ns) (prime st)))) \<and>
          (\<forall>n. cb_empty (txbuf (irq_run (map TxReady ns) (prime st))) \<and> 0 < n \<longrightarrow>
             tx_irq (irq_fire (TxReady n) (irq_run (map TxReady ns) (prime st))) = DISABLED))"
proof -
  note p = prime_drain [OF assms(1,3)]
  then have inv: "tx_inv (prime st)"
    by (simp add: tx_inv_def)
  show ?thesis
  proof (intro conjI allI impI)
    show "tx_irq (prime st) = ENABLED" using p by simp
  next
    fix ns
    note r = irq_run_TxReady [OF inv, of ns]
    show "sent (calls (irq_run (map TxReady ns) (prime st))) =
            sent (calls st) @ take (tx_room (serial st) + sum_list ns) (cb_contents (txbuf st))"
      using r p by (simp add: take_add)
    show "cb_contents (txbuf (irq_run (map TxReady ns) (prime st))) =
            drop (tx_room (serial st) + sum_list ns) (cb_contents (txbuf st))"
      using r p by (simp add: add.commute)
    show "tx_irq (irq_run (map TxReady ns) (prime st)) = ENABLED \<or>
           cb_empty (txbuf (irq_run (map TxReady ns) (prime st)))"
      using r by (simp add: tx_inv_def)
    fix n :: nat
    assume "cb_empty (txbuf (irq_run (map TxReady ns) (prime st))) \<and> 0 < n"
    then show "tx_irq (irq_fire (TxReady n) (irq_run (map TxReady ns) (prime st))) = DISABLED"
      using r irq_fire_drained by blast
  qed
qed

text \<open>
  The theorem at the port that holds \<open>AB\<close> with a transmitter ready for one byte: \<open>A\<close> goes
  out in \<^verbatim>\<open>prime\<close>, \<open>B\<close> in the next interrupt, and the interrupt after that detaches the
  handler.
\<close>

theorem prime_fifo_then_disabled_witness:
  "cb_wf (txbuf port_AB) \<and> \<not> cb_empty (txbuf port_AB) \<and> serial_writable (serial port_AB) \<and>
   tx_irq (prime port_AB) = ENABLED \<and>
   sent (calls (prime port_AB)) = ''A'' \<and>
   sent (calls (irq_run [TxReady 1] (prime port_AB))) = ''AB'' \<and>
   cb_empty (txbuf (irq_run [TxReady 1] (prime port_AB))) \<and>
   tx_irq (irq_run [TxReady 1] (prime port_AB)) = ENABLED \<and>
   tx_irq (irq_fire (TxReady 1) (irq_run [TxReady 1] (prime port_AB))) = DISABLED"
proof -
  have h: "cb_wf (txbuf port_AB)" "\<not> cb_empty (txbuf port_AB)"
    "serial_writable (serial port_AB)"
    by code_simp+
  have v: "sent (calls port_AB) = []" "tx_room (serial port_AB) = 1"
    "cb_contents (txbuf port_AB) = ''AB''"
    by code_simp+
  have e: "cb_empty (txbuf (irq_run [TxReady 1] (prime port_AB)))"
    "tx_irq (irq_run [TxReady 1] (prime port_AB)) = ENABLED"
    by code_simp+
  note t = prime_fifo_then_disabled [OF h]
  from t have a: "sent (calls (irq_run (map TxReady ns) (prime port_AB))) =
      sent (calls port_AB) @
        take (tx_room (serial port_AB) + sum_list ns) (cb_contents (txbuf port_AB))" for ns
    by blast
  from t have d: "cb_empty (txbuf (irq_run (map TxReady ns) (prime port_AB))) \<and> 0 < n \<longrightarrow>
      tx_irq (irq_fire (TxReady n) (irq_run (map TxReady ns) (prime port_AB))) = DISABLED"
    for ns n
    by blast
  from t have "tx_irq (prime port_AB) = ENABLED" by blast
  moreover from a [of "[]"] have "sent (calls (prime port_AB)) = ''A''"
    by (simp add: v irq_run_def)
  moreover from a [of "[1]"] have "sent (calls (irq_run [TxReady 1] (prime port_AB))) = ''AB''"
    by (simp add: v)
  moreover from d [of "[1]" 1] e have
    "tx_irq (irq_fire (TxReady 1) (irq_run [TxReady 1] (prime port_AB))) = DISABLED"
    by simp
  ultimately show ?thesis using h e by simp
qed

text \<open>
  C1 as first stated, with the interrupt DISABLED as soon as the buffer is drained, does
  not hold where \<^verbatim>\<open>prime\<close> drains the buffer itself: the port holds one byte, the hardware
  is ready, and after \<^verbatim>\<open>prime\<close> nothing is queued while the handler is attached.
\<close>

theorem prime_drained_still_enabled:
  "cb_wf (txbuf port_A) \<and> \<not> cb_empty (txbuf port_A) \<and> serial_writable (serial port_A) \<and>
   sent (calls (prime port_A)) = ''A'' \<and> cb_empty (txbuf (prime port_A)) \<and>
   tx_irq (prime port_A) = ENABLED"
  by code_simp

text \<open>
  C2. When \<^verbatim>\<open>prime\<close> is called and the hardware can accept a byte, it detaches the transmit
  handler, then makes the calls and leaves the tx buffer and the hardware as \<^verbatim>\<open>txIrq\<close> run
  from the same state does, then attaches the handler again, so that the interrupt ends
  ENABLED. When the hardware is busy, it makes no call at all: the port is as before but
  for the record that \<^verbatim>\<open>prime\<close> was entered.
\<close>

theorem prime_detach_drain_attach:
  "(serial_writable (serial st) \<longrightarrow>
      (\<exists>drain.
         calls (txIrq st) = calls st @ drain \<and>
         calls (prime st) =
           calls st @ [Call_prime, Call_attach_TxIrq False] @ drain @ [Call_attach_TxIrq True]) \<and>
      txbuf (prime st) = txbuf (txIrq st) \<and> serial (prime st) = serial (txIrq st) \<and>
      rxbuf (prime st) = rxbuf st \<and> tx_irq (prime st) = ENABLED) \<and>
   (\<not> serial_writable (serial st) \<longrightarrow>
      prime st = st\<lparr>calls := calls st @ [Call_prime]\<rparr>)"
proof (intro conjI impI)
  assume w: "serial_writable (serial st)"
  obtain d where d: "\<And>q tr.
      calls (txIrq (st\<lparr>tx_irq := q, calls := tr\<rparr>)) = tr @ d \<and>
      txbuf (txIrq (st\<lparr>tx_irq := q, calls := tr\<rparr>)) = txbuf (txIrq st) \<and>
      serial (txIrq (st\<lparr>tx_irq := q, calls := tr\<rparr>)) = serial (txIrq st)"
    using txIrq_frame [of st] by blast
  from d [where q = "tx_irq st" and tr = "calls st"] have "calls (txIrq st) = calls st @ d"
    by simp
  then show "\<exists>drain.
         calls (txIrq st) = calls st @ drain \<and>
         calls (prime st) =
           calls st @ [Call_prime, Call_attach_TxIrq False] @ drain @ [Call_attach_TxIrq True]"
    using d by (intro exI [of _ d]) (simp add: prime_ready [OF w] attach_TxIrq_def log_def)
  show "txbuf (prime st) = txbuf (txIrq st)" "serial (prime st) = serial (txIrq st)"
    using d by (simp_all add: prime_ready [OF w] attach_TxIrq_def log_def)
  show "rxbuf (prime st) = rxbuf st"
    by (simp add: prime_ready [OF w] attach_TxIrq_def log_def txIrq_unchanged)
  show "tx_irq (prime st) = ENABLED"
    by (simp add: prime_ready [OF w] attach_TxIrq_def log_def)
next
  assume "\<not> serial_writable (serial st)"
  then show "prime st = st\<lparr>calls := calls st @ [Call_prime]\<rparr>"
    by (simp add: prime_busy log_def)
qed

text \<open>
  The theorem at a port that holds \<open>A\<close> with a ready transmitter, and at a fresh port
  whose transmitter is busy.
\<close>

theorem prime_detach_drain_attach_witness:
  "serial_writable (serial port_A) \<and>
   calls (txIrq port_A) =
     calls port_A @ [Call_serial_putc (CHR ''A''), Call_attach_TxIrq False] \<and>
   calls (prime port_A) =
     calls port_A @ [Call_prime, Call_attach_TxIrq False] @
       [Call_serial_putc (CHR ''A''), Call_attach_TxIrq False] @ [Call_attach_TxIrq True] \<and>
   txbuf (prime port_A) = txbuf (txIrq port_A) \<and> tx_irq (prime port_A) = ENABLED \<and>
   \<not> serial_writable (serial (port0 True 0 [])) \<and>
   prime (port0 True 0 []) = (port0 True 0 [])\<lparr>calls := calls (port0 True 0 []) @ [Call_prime]\<rparr>"
proof -
  have h: "serial_writable (serial port_A)" "\<not> serial_writable (serial (port0 True 0 []))"
    by code_simp+
  have c: "calls (txIrq port_A) =
      calls port_A @ [Call_serial_putc (CHR ''A''), Call_attach_TxIrq False]"
    by code_simp
  from prime_detach_drain_attach [of port_A] h(1) obtain drain where
    d: "calls (txIrq port_A) = calls port_A @ drain"
      "calls (prime port_A) =
         calls port_A @ [Call_prime, Call_attach_TxIrq False] @ drain @ [Call_attach_TxIrq True]"
    and r: "txbuf (prime port_A) = txbuf (txIrq port_A)" "tx_irq (prime port_A) = ENABLED"
    by blast
  from d(1) c have "drain = [Call_serial_putc (CHR ''A''), Call_attach_TxIrq False]"
    by simp
  with d(2) have "calls (prime port_A) =
     calls port_A @ [Call_prime, Call_attach_TxIrq False] @
       [Call_serial_putc (CHR ''A''), Call_attach_TxIrq False] @ [Call_attach_TxIrq True]"
    by simp
  moreover from prime_detach_drain_attach [of "port0 True 0 []"] h(2) have
    "prime (port0 True 0 []) = (port0 True 0 [])\<lparr>calls := calls (port0 True 0 []) @ [Call_prime]\<rparr>"
    by blast
  ultimately show ?thesis using h c r by blast
qed

text \<open>
  C3. With \<open>block_on_full\<close> set, \<^verbatim>\<open>putc\<close>, \<^verbatim>\<open>write\<close> and the loop of \<^verbatim>\<open>puts\<close> wait for
  room before each push, but \<^verbatim>\<open>puts\<close> pushes its line terminator without waiting. On the
  blocking port that is sending \<open>X\<close>, \<^verbatim>\<open>puts("AB")\<close> fills the buffer with \<open>A\<close> and \<open>B\<close> and
  pushes the terminator at once: there is no spin between the last two pushes, the
  pending interrupt is not awaited, and \<open>A\<close> is overwritten before it was sent. The bulk
  write of the same three bytes spins once before the third push, lets the interrupt
  send \<open>A\<close>, and loses nothing.
\<close>

theorem puts_terminator_not_awaited:
  "m_block_on_full port_sending \<and>
   map_option (cb_full \<circ> txbuf \<circ> snd) (puts_loop ''AB'' 0 port_sending) = Some True \<and>
   map_option (calls \<circ> snd) (puts (Some ''AB'') port_sending) =
     Some (calls port_sending @
       [Call_txbuf_push (CHR ''A''), Call_txbuf_push (CHR ''B''),
        Call_txbuf_push (CHR 0x0A), Call_prime]) \<and>
   outcome (puts (Some ''AB'') port_sending) = Some (3, ''X'', [CHR ''B'', CHR 0x0A]) \<and>
   map_option (calls \<circ> snd)
       (write_bulk (Some (mem_of [CHR ''A'', CHR ''B'', CHR 0x0A])) 3 port_sending) =
     Some (calls port_sending @
       [Call_txbuf_push (CHR ''A''), Call_txbuf_push (CHR ''B''), Spin,
        Call_serial_putc (CHR ''A''), Call_txbuf_push (CHR 0x0A), Call_prime]) \<and>
   outcome (write_bulk (Some (mem_of [CHR ''A'', CHR ''B'', CHR 0x0A])) 3 port_sending) =
     Some (3, ''XA'', [CHR ''B'', CHR 0x0A])"
  by code_simp












text \<open>
  C8. \<^verbatim>\<open>write\<close> with a null pointer, \<^verbatim>\<open>write\<close> with the length 0 and \<^verbatim>\<open>puts\<close> with a null
  pointer return 0 and leave the port as it is: no buffer changes, and no push and no
  \<^verbatim>\<open>prime\<close> joins the history.
\<close>

theorem degenerate_writes_are_noops:
  "write_bulk None n st = Some (0, st) \<and> write_bulk p 0 st = Some (0, st) \<and>
   puts None st = Some (0, st)"
  by (simp add: write_bulk_def puts_def)

text \<open>The theorem at a null pointer with the length 7 and at a pointer with the length 0.\<close>

theorem degenerate_writes_are_noops_witness:
  "write_bulk None 7 port_AB = Some (0, port_AB) \<and>
   write_bulk (Some (mem_of ''AB'')) 0 port_AB = Some (0, port_AB) \<and>
   puts None port_AB = Some (0, port_AB)"
  using degenerate_writes_are_noops [of 7 port_AB "Some (mem_of ''AB'')"] by simp

text \<open>
  C9. \<^verbatim>\<open>getc\<close> and \<^verbatim>\<open>_getc\<close> on a port whose rx buffer is empty return 0 and leave the
  port, with both buffers, as it is. They return 0 as well when the oldest byte in the
  rx buffer is a zero byte, so the result 0 does not tell the two cases apart.
\<close>

theorem getc_on_empty_returns_zero:
  "(cb_empty (rxbuf st) \<longrightarrow> getc st = (0, st) \<and> getc' st = (0, st)) \<and>
   (cb_wf (rxbuf st) \<and> \<not> cb_empty (rxbuf st) \<and> hd (cb_contents (rxbuf st)) = CHR 0x00 \<longrightarrow>
      fst (getc st) = 0 \<and> fst (getc' st) = 0)"
proof (intro conjI impI)
  assume "cb_empty (rxbuf st)"
  then show "getc st = (0, st)" "getc' st = (0, st)"
    by (simp_all add: getc_def getc'_def cb_pop_empty)
next
  assume a: "cb_wf (rxbuf st) \<and> \<not> cb_empty (rxbuf st) \<and> hd (cb_contents (rxbuf st)) = CHR 0x00"
  then have "fst (snd (cb_pop (rxbuf st) (CHR 0x00))) = CHR 0x00"
    using cb_pop_data [of "rxbuf st" "CHR 0x00"] by simp
  then show "fst (getc st) = 0" "fst (getc' st) = 0"
    by (auto simp: getc_def getc'_def split: prod.splits)
qed

text \<open>
  The theorem at a fresh port and at the port that has received one zero byte: both
  calls return 0.
\<close>

theorem getc_on_empty_returns_zero_witness:
  "cb_empty (rxbuf (port0 True 0 [])) \<and>
   getc (port0 True 0 []) = (0, port0 True 0 []) \<and>
   getc' (port0 True 0 []) = (0, port0 True 0 []) \<and>
   cb_wf (rxbuf port_rx0) \<and> \<not> cb_empty (rxbuf port_rx0) \<and>
   hd (cb_contents (rxbuf port_rx0)) = CHR 0x00 \<and>
   fst (getc port_rx0) = 0 \<and> fst (getc' port_rx0) = 0"
proof -
  have h: "cb_empty (rxbuf (port0 True 0 []))"
    "cb_wf (rxbuf port_rx0) \<and> \<not> cb_empty (rxbuf port_rx0) \<and>
     hd (cb_contents (rxbuf port_rx0)) = CHR 0x00"
    by code_simp+
  from getc_on_empty_returns_zero [of "port0 True 0 []"] getc_on_empty_returns_zero [of port_rx0] h
  show ?thesis by blast
qed

text \<open>
  C10. \<^verbatim>\<open>writeable\<close> returns 1 and leaves the port as it is, in every state: the result
  is the same whatever the tx buffer holds and whatever the policy flag is.
\<close>

theorem writeable_always_one:
  "writeable st = (1, st) \<and>
   fst (writeable (st\<lparr>txbuf := b, m_block_on_full := f\<rparr>)) = 1"
  by (simp add: writeable_def)

text \<open>The theorem at a blocking port whose tx buffer is full.\<close>

theorem writeable_always_one_witness:
  "cb_full (txbuf port_full) \<and> m_block_on_full port_full \<and>
   writeable port_full = (1, port_full)"
proof -
  have "cb_full (txbuf port_full)" "m_block_on_full port_full"
    by code_simp+
  with writeable_always_one [of port_full] show ?thesis by blast
qed

end
